theory Spec2Isabelle
  imports Complex_Main "HOL-Library.Multiset"
begin

section \<open>Outlier removal of CGAL's point set processing (remove\_outliers.h)\<close>

text \<open>
  The header is a template over a geometric kernel. The embedding fixes the kernel's
  number type \<open>FT\<close> to the exact rationals (an exact kernel); the \<open>double\<close> values of the
  source (the two thresholds, the progress fraction and the product that gives
  \<open>first_index_to_remove\<close>) are computed in the same exact arithmetic, that is, without
  rounding. The kernel's point type and its squared distance, and the neighbour search
  structure of \<open>Neighbor_query.h\<close>, are parameters of the functions below.
\<close>

subsection \<open>Types\<close>

type_synonym FT = rat

text \<open>
  Every way in which a run does not return normally is an error value: a failed
  \<open>CGAL_point_set_processing_precondition\<close>, a division by \<open>FT(0)\<close>, and a value that does
  not fit the 32-bit \<open>int\<close> of \<open>first_index_to_remove\<close> and \<open>index\<close>.
\<close>

datatype error = Precondition_violation | Division_by_zero | Int_overflow

text \<open>
  A constructed \<open>Neighbor_query\<close> is used through \<open>get_points (query, k, neighbor_radius,
  output)\<close> only: it is the function from the three arguments to the points written to the
  output iterator. \<open>k\<close> is an \<open>unsigned int\<close> on which the header does no arithmetic.
\<close>

type_synonym 'pt Neighbor_query = "'pt \<Rightarrow> nat \<Rightarrow> FT \<Rightarrow> 'pt list"

definition INT_MAX :: int where
  "INT_MAX = 2 ^ 31 - 1"

definition INT_MIN :: int where
  "INT_MIN = - (2 ^ 31)"

subsection \<open>internal::compute\_avg\_knn\_sq\_distance\_3\<close>

text \<open>
  Lines 63 to 72: the neighbours are collected, their squared distances to the query are
  added up from \<open>FT(0)\<close> in the order of the vector, and the sum is divided by
  \<open>FT(points.size())\<close>. Nothing tests the size before the division.
\<close>

definition compute_avg_knn_sq_distance_3 ::
  "('pt \<Rightarrow> 'pt \<Rightarrow> FT) \<Rightarrow> 'pt \<Rightarrow> 'pt Neighbor_query \<Rightarrow> nat \<Rightarrow> FT \<Rightarrow> error + FT" where
  "compute_avg_knn_sq_distance_3 sqd query neighbor_query k neighbor_radius =
     (let points = neighbor_query query k neighbor_radius;
          sq_distance = foldl (\<lambda>acc neighbor. acc + sqd neighbor query) 0 points
      in if of_nat (length points) = (0::FT) then Inl Division_by_zero
         else Inr (sq_distance / of_nat (length points)))"

subsection \<open>Named parameters\<close>

text \<open>
  The named parameters after \<open>choose_parameter\<close>. An empty \<open>std::function\<close> is \<open>None\<close>.
  The callback answers by its argument; within one run it never receives the same argument
  twice.
\<close>

record ('v, 'pt) named_parameters =
  point_map :: "'v \<Rightarrow> 'pt"
  neighbor_radius :: FT
  threshold_percent :: rat
  threshold_distance :: rat
  callback :: "(rat \<Rightarrow> bool) option"

definition all_default :: "('v \<Rightarrow> 'pt) \<Rightarrow> ('v, 'pt) named_parameters" where
  "all_default pm =
     \<lparr>point_map = pm, neighbor_radius = 0, threshold_percent = 10,
      threshold_distance = 0, callback = None\<rparr>"

subsection \<open>The multimap of scored points\<close>

text \<open>
  \<open>std::multimap<FT, Enriched_point>\<close> is the list of its entries in iteration order.
  \<open>insert\<close> puts an entry at the upper bound of its key: behind every entry whose key is
  not greater.
\<close>

fun multimap_insert :: "FT \<times> 'v \<Rightarrow> (FT \<times> 'v) list \<Rightarrow> (FT \<times> 'v) list" where
  "multimap_insert e [] = [e]"
| "multimap_insert e (x # xs) =
     (if fst e < fst x then e # x # xs else x # multimap_insert e xs)"

subsection \<open>remove\_outliers\<close>

text \<open>
  The loop of lines 188 to 197 over the remaining input points. Its state is the multimap,
  the counter \<open>nb\<close> and, as a record of the calls made, the arguments the callback has
  received so far. The result \<open>None\<close> is the \<open>return points.end()\<close> of line 195.
\<close>

fun scoring_loop ::
  "('pt \<Rightarrow> 'pt \<Rightarrow> FT) \<Rightarrow> 'pt Neighbor_query \<Rightarrow> nat \<Rightarrow> ('v, 'pt) named_parameters \<Rightarrow> nat \<Rightarrow>
   'v list \<Rightarrow> (FT \<times> 'v) list \<Rightarrow> nat \<Rightarrow> rat list \<Rightarrow>
   error + ((FT \<times> 'v) list option \<times> rat list)" where
  "scoring_loop sqd neighbor_query k np nb_points [] sorted_points nb calls =
     Inr (Some sorted_points, calls)"
| "scoring_loop sqd neighbor_query k np nb_points (vt # rest) sorted_points nb calls =
     (case compute_avg_knn_sq_distance_3 sqd (point_map np vt) neighbor_query k
             (neighbor_radius np) of
        Inl e \<Rightarrow> Inl e
      | Inr sq_distance \<Rightarrow>
          (let sorted_points' = multimap_insert (sq_distance, vt) sorted_points
           in case callback np of
                None \<Rightarrow>
                  scoring_loop sqd neighbor_query k np nb_points rest sorted_points' (nb + 1)
                    calls
              | Some f \<Rightarrow>
                  (let progress = of_nat (nb + 1) / of_nat nb_points
                   in if \<not> f progress then Inr (None, calls @ [progress])
                      else scoring_loop sqd neighbor_query k np nb_points rest sorted_points'
                             (nb + 1) (calls @ [progress]))))"

text \<open>
  The value \<open>sq_distance\<close> that line 190 computes for the input point \<open>vt\<close> (its score),
  where the computation returns one.
\<close>

definition sq_distance_of ::
  "('pt \<Rightarrow> 'pt \<Rightarrow> FT) \<Rightarrow> 'pt Neighbor_query \<Rightarrow> nat \<Rightarrow> ('v, 'pt) named_parameters \<Rightarrow> 'v \<Rightarrow> FT" where
  "sq_distance_of sqd neighbor_query k np vt =
     (case compute_avg_knn_sq_distance_3 sqd (point_map np vt) neighbor_query k
             (neighbor_radius np) of
        Inl e \<Rightarrow> 0
      | Inr sq_distance \<Rightarrow> sq_distance)"


text \<open>
  The conversion \<open>int(...)\<close> of line 203 truncates towards zero; a value outside the range
  of \<open>int\<close> has no defined result.
\<close>

definition double_to_int :: "rat \<Rightarrow> error + int" where
  "double_to_int x =
     (let t = (if 0 \<le> x then \<lfloor>x\<rfloor> else \<lceil>x\<rceil>)
      in if INT_MIN \<le> t \<and> t \<le> INT_MAX then Inr t else Inl Int_overflow)"

text \<open>
  The loop of lines 206 to 214. The iterators \<open>dst\<close> and \<open>first_point_to_remove\<close> are
  positions in \<open>points\<close>; \<open>*dst++ = src->second\<close> overwrites the element at \<open>dst\<close>. The
  multimap holds one entry per input point, so \<open>dst\<close> stays inside the range.
\<close>

fun rewrite_loop ::
  "(FT \<times> 'v) list \<Rightarrow> int \<Rightarrow> int \<Rightarrow> rat \<Rightarrow> 'v list \<Rightarrow> nat \<Rightarrow> nat \<Rightarrow> error + ('v list \<times> nat)" where
  "rewrite_loop [] index first_index_to_remove td points dst first_point_to_remove =
     Inr (points, first_point_to_remove)"
| "rewrite_loop (src # rest) index first_index_to_remove td points dst first_point_to_remove =
     (let points' = points[dst := snd src];
          dst' = dst + 1;
          first_point_to_remove' =
            (if index \<le> first_index_to_remove \<or> fst src < td * td then dst'
             else first_point_to_remove)
      in if INT_MAX < index + 1 then Inl Int_overflow
         else rewrite_loop rest (index + 1) first_index_to_remove td points' dst'
                first_point_to_remove')"

text \<open>
  Modelled from the spec: the macro \<open>CGAL_point_set_processing_precondition\<close> of
  \<open>point_set_processing_assertions.h\<close> is not part of the sources at hand. Following the
  specification, a violated precondition is fatal: the run does not proceed.
\<close>

definition CGAL_point_set_processing_precondition :: "bool \<Rightarrow> error + 'a \<Rightarrow> error + 'a" where
  "CGAL_point_set_processing_precondition condition continue =
     (if condition then continue else Inl Precondition_violation)"

text \<open>
  \<open>remove_outliers (points, k, np)\<close>. The result is the range after the call together with
  the position of the returned iterator; \<open>points.end()\<close> is the length of the range. The
  neighbour search structure is built from the range and the point map by the
  constructor \<open>Neighbor_query\<close>, a parameter.
\<close>

definition remove_outliers ::
  "('pt \<Rightarrow> 'pt \<Rightarrow> FT) \<Rightarrow> ('v list \<Rightarrow> ('v \<Rightarrow> 'pt) \<Rightarrow> 'pt Neighbor_query) \<Rightarrow>
   'v list \<Rightarrow> nat \<Rightarrow> ('v, 'pt) named_parameters \<Rightarrow> error + ('v list \<times> nat)" where
  "remove_outliers sqd Neighbor_query points k np =
     CGAL_point_set_processing_precondition (points \<noteq> [])
      (CGAL_point_set_processing_precondition (2 \<le> k)
        (CGAL_point_set_processing_precondition
          (0 \<le> threshold_percent np \<and> threshold_percent np \<le> 100)
          (let neighbor_query = Neighbor_query points (point_map np);
               nb_points = length points
           in case scoring_loop sqd neighbor_query k np nb_points points [] 0 [] of
                Inl e \<Rightarrow> Inl e
              | Inr (None, calls) \<Rightarrow> Inr (points, length points)
              | Inr (Some sorted_points, calls) \<Rightarrow>
                  (case double_to_int (of_nat (length sorted_points) *
                          ((100 - threshold_percent np) / 100)) of
                     Inl e \<Rightarrow> Inl e
                   | Inr first_index_to_remove \<Rightarrow>
                       rewrite_loop sorted_points 0 first_index_to_remove
                         (threshold_distance np) points 0 0))))"

subsection \<open>A concrete kernel and neighbour search\<close>

text \<open>
  Modelled from the spec: the kernel's \<open>Point_3\<close> and \<open>Compute_squared_distance_3\<close> are not
  part of the sources at hand. A point is its three coordinates and the distance is the
  squared Euclidean one.
\<close>

type_synonym Point_3 = "rat \<times> rat \<times> rat"

fun squared_distance_3 :: "Point_3 \<Rightarrow> Point_3 \<Rightarrow> FT" where
  "squared_distance_3 (x1, y1, z1) (x2, y2, z2) =
     (x1 - x2) * (x1 - x2) + (y1 - y2) * (y1 - y2) + (z1 - z2) * (z1 - z2)"

text \<open>
  Modelled from the spec: \<open>Neighbor_query.h\<close> is not part of the sources at hand. By the
  specification of the proximity index, a query returns up to \<open>k\<close> points of the indexed
  range; with a positive radius the search is restricted to that radius and \<open>k\<close> caps the
  number of points returned, \<open>k = 0\<close> meaning no cap. The points come nearest first here.
\<close>

definition knn_query :: "'v list \<Rightarrow> ('v \<Rightarrow> Point_3) \<Rightarrow> Point_3 Neighbor_query" where
  "knn_query points pm query k radius =
     (let nearest_first = sort_key (\<lambda>p. squared_distance_3 p query) (map pm points)
      in if radius = 0 then take k nearest_first
         else (let inside = filter (\<lambda>p. squared_distance_3 p query \<le> radius * radius)
                              nearest_first
               in if k = 0 then inside else take k inside))"

text \<open>
  Ten points: the eight corners and the centre of a cube of side 1/10, and one point at
  distance about 100 from all of them, fourth in the input.
\<close>

definition far_point :: Point_3 where
  "far_point = (100, 0, 0)"

definition cluster_and_far :: "Point_3 list" where
  "cluster_and_far =
     [(0, 0, 0), (1/10, 0, 0), (0, 1/10, 0), far_point, (1/10, 1/10, 0),
      (0, 0, 1/10), (1/20, 1/20, 1/20), (1/10, 0, 1/10), (0, 1/10, 1/10),
      (1/10, 1/10, 1/10)]"

text \<open>
  Three points on a line, the isolated one first in the input. With \<open>k = 2\<close> the two
  points that are close to each other get the same score.
\<close>

definition three_points :: "Point_3 list" where
  "three_points = [(3, 0, 0), (0, 0, 0), (1, 0, 0)]"

section \<open>Properties\<close>

subsection \<open>The estimator and the multimap\<close>

lemma foldl_add_sum_list:
  "foldl (\<lambda>acc n. acc + f n) (a::rat) xs = a + sum_list (map f xs)"
  by (induction xs arbitrary: a) (simp_all add: add.assoc)

lemma mset_multimap_insert: "mset (multimap_insert e xs) = add_mset e (mset xs)"
  by (induction xs) simp_all

lemma length_multimap_insert: "length (multimap_insert e xs) = Suc (length xs)"
  by (induction xs) simp_all

lemma set_multimap_insert: "set (multimap_insert e xs) = insert e (set xs)"
  by (induction xs) auto

lemma sorted_multimap_insert:
  "sorted (map fst xs) \<Longrightarrow> sorted (map fst (multimap_insert e xs))"
  by (induction xs) (auto simp: set_multimap_insert)

lemma filter_multimap_insert:
  "sorted (map fst xs) \<Longrightarrow>
   filter (\<lambda>x. fst x = s) (multimap_insert e xs) =
     (if fst e = s then filter (\<lambda>x. fst x = s) xs @ [e] else filter (\<lambda>x. fst x = s) xs)"
proof (induction xs)
  case Nil
  then show ?case by simp
next
  case (Cons x xs)
  show ?case
  proof (cases "fst e < fst x")
    case True
    have "\<forall>y\<in>set (x # xs). fst e < fst y"
      using Cons.prems True by auto
    then have "fst e = s \<Longrightarrow> filter (\<lambda>x. fst x = s) (x # xs) = []"
      by (auto simp: filter_empty_conv)
    then show ?thesis using True by auto
  next
    case False
    then show ?thesis using Cons by auto
  qed
qed

subsection \<open>The scoring loop\<close>

lemma scoring_loop_Some:
  "scoring_loop sqd nq k np N rest sp nb calls = Inr (Some sp', calls') \<Longrightarrow>
   sp' = foldl (\<lambda>acc vt. multimap_insert (sq_distance_of sqd nq k np vt, vt) acc) sp rest"
proof (induction rest arbitrary: sp nb calls)
  case Nil
  then show ?case by simp
next
  case (Cons vt rest)
  then show ?case
    by (auto simp: Let_def sq_distance_of_def split: sum.splits option.splits if_splits)
qed


lemma scoring_loop_no_callback:
  "scoring_loop sqd nq k np N rest sp nb calls = Inr (r, calls') \<Longrightarrow> callback np = None \<Longrightarrow>
   calls' = calls \<and> r \<noteq> None"
  by (induction rest arbitrary: sp nb calls) (auto simp: Let_def split: sum.splits)

lemma scoring_loop_cancel:
  "callback np = Some f \<Longrightarrow> j < length rest \<Longrightarrow>
   \<not> f (of_nat (nb + j + 1) / of_nat N) \<Longrightarrow>
   \<forall>i\<le>j. nq (point_map np (rest ! i)) k (neighbor_radius np) \<noteq> [] \<Longrightarrow>
   \<exists>c. scoring_loop sqd nq k np N rest sp nb calls = Inr (None, c)"
proof (induction rest arbitrary: sp nb calls j)
  case Nil
  then show ?case by simp
next
  case (Cons vt rest)
  from Cons.prems(4) have "nq (point_map np vt) k (neighbor_radius np) \<noteq> []"
    by (auto dest: spec[of _ 0])
  then obtain s where
    s: "compute_avg_knn_sq_distance_3 sqd (point_map np vt) nq k (neighbor_radius np) = Inr s"
    by (simp add: compute_avg_knn_sq_distance_3_def Let_def)
  let ?x = "of_nat (nb + 1) / of_nat N :: rat"
  show ?case
  proof (cases "f ?x")
    case False
    with s Cons.prems(1) show ?thesis by (simp add: Let_def)
  next
    case True
    with Cons.prems(3) have "j \<noteq> 0" by (auto intro: ccontr)
    then obtain j' where j': "j = Suc j'" by (cases j) auto
    have a: "j' < length rest" using Cons.prems(2) j' by simp
    have b: "\<not> f (of_nat (nb + 1 + j' + 1) / of_nat N)" using Cons.prems(3) j' by simp
    have c: "\<forall>i\<le>j'. nq (point_map np (rest ! i)) k (neighbor_radius np) \<noteq> []"
      using Cons.prems(4) j' by (auto dest: spec[of _ "Suc _"])
    from Cons.IH[OF Cons.prems(1) a b c] True s Cons.prems(1) show ?thesis
      by (simp add: Let_def)
  qed
qed

lemma scoring_loop_returns:
  "\<forall>vt\<in>set rest. nq (point_map np vt) k (neighbor_radius np) \<noteq> [] \<Longrightarrow>
   \<exists>r c. scoring_loop sqd nq k np N rest sp nb calls = Inr (r, c)"
proof (induction rest arbitrary: sp nb calls)
  case Nil
  then show ?case by simp
next
  case (Cons vt rest)
  then obtain s where
    s: "compute_avg_knn_sq_distance_3 sqd (point_map np vt) nq k (neighbor_radius np) = Inr s"
    by (simp add: compute_avg_knn_sq_distance_3_def Let_def)
  from Cons have ih: "\<And>sp nb calls. \<exists>r c. scoring_loop sqd nq k np N rest sp nb calls = Inr (r, c)"
    by simp
  show ?case using s ih by (simp add: Let_def split: option.splits)
qed


subsection \<open>The rewriting loop and the filled multimap\<close>

lemma rewrite_loop_points:
  "rewrite_loop sp idx fitr td pts dst fptr = Inr (pts', ret) \<Longrightarrow> dst + length sp \<le> length pts \<Longrightarrow>
   pts' = take dst pts @ map snd sp @ drop (dst + length sp) pts"
proof (induction sp arbitrary: idx pts dst fptr)
  case Nil
  then show ?case by simp
next
  case (Cons src rest)
  let ?pts = "pts[dst := snd src]"
  from Cons.prems obtain fptr' where
    run: "rewrite_loop rest (idx + 1) fitr td ?pts (dst + 1) fptr' = Inr (pts', ret)"
    by (auto simp: Let_def split: if_splits)
  have len: "dst + 1 + length rest \<le> length ?pts" using Cons.prems(2) by simp
  have dst: "dst < length pts" using Cons.prems(2) by simp
  have t: "take (dst + 1) ?pts = take dst pts @ [snd src]"
    using dst by (simp add: take_Suc_conv_app_nth)
  have d: "drop (dst + 1 + length rest) ?pts = drop (dst + length (src # rest)) pts"
    by simp
  from Cons.IH[OF run len] t d show ?case by simp
qed

lemma rewrite_loop_cut:
  "rewrite_loop sp idx fitr td pts dst fptr = Inr (pts', ret) \<Longrightarrow> fptr \<le> dst \<Longrightarrow>
   fptr \<le> ret \<and> ret \<le> dst + length sp"
proof (induction sp arbitrary: idx pts dst fptr)
  case Nil
  then show ?case by simp
next
  case (Cons src rest)
  show ?case
  proof (cases "idx \<le> fitr \<or> fst src < td * td")
    case True
    with Cons.prems have
      "rewrite_loop rest (idx + 1) fitr td (pts[dst := snd src]) (dst + 1) (dst + 1) = Inr (pts', ret)"
      by (auto simp: Let_def split: if_splits)
    from Cons.IH[OF this] Cons.prems(2) show ?thesis by simp
  next
    case False
    with Cons.prems have
      "rewrite_loop rest (idx + 1) fitr td (pts[dst := snd src]) (dst + 1) fptr = Inr (pts', ret)"
      by (auto simp: Let_def split: if_splits)
    from Cons.IH[OF this] Cons.prems(2) show ?thesis by simp
  qed
qed



lemma rewrite_loop_returns:
  "idx + int (length sp) \<le> INT_MAX \<Longrightarrow> \<exists>r. rewrite_loop sp idx fitr td pts dst fptr = Inr r"
proof (induction sp arbitrary: idx pts dst fptr)
  case Nil
  then show ?case by simp
next
  case (Cons src rest)
  then have a: "idx + 1 + int (length rest) \<le> INT_MAX" by simp
  then have b: "\<not> INT_MAX < idx + 1" by linarith
  from Cons.IH[OF a] b show ?case by (simp add: Let_def)
qed

lemma mset_foldl_insert:
  "mset (foldl (\<lambda>acc vt. multimap_insert (g vt, vt) acc) sp rest) =
     mset sp + mset (map (\<lambda>vt. (g vt, vt)) rest)"
  by (induction rest arbitrary: sp) (simp_all add: mset_multimap_insert)

lemma sorted_foldl_insert:
  "sorted (map fst sp) \<Longrightarrow> sorted (map fst (foldl (\<lambda>acc vt. multimap_insert (g vt, vt) acc) sp rest))"
  by (induction rest arbitrary: sp) (simp_all add: sorted_multimap_insert)

lemma filter_foldl_insert:
  "sorted (map fst sp) \<Longrightarrow>
   filter (\<lambda>x. fst x = s) (foldl (\<lambda>acc vt. multimap_insert (g vt, vt) acc) sp rest) =
     filter (\<lambda>x. fst x = s) sp @ map (\<lambda>vt. (g vt, vt)) (filter (\<lambda>vt. g vt = s) rest)"
  by (induction rest arbitrary: sp) (simp_all add: sorted_multimap_insert filter_multimap_insert)

lemma set_foldl_insert:
  "set (foldl (\<lambda>acc vt. multimap_insert (g vt, vt) acc) [] rest) = (\<lambda>vt. (g vt, vt)) ` set rest"
proof -
  have "mset (foldl (\<lambda>acc vt. multimap_insert (g vt, vt) acc) [] rest) =
          mset (map (\<lambda>vt. (g vt, vt)) rest)"
    by (simp add: mset_foldl_insert)
  then have "set (foldl (\<lambda>acc vt. multimap_insert (g vt, vt) acc) [] rest) =
          set (map (\<lambda>vt. (g vt, vt)) rest)"
    by (rule mset_eq_setD)
  then show ?thesis by simp
qed

lemma map_snd_foldl_insert:
  "mset (map snd (foldl (\<lambda>acc vt. multimap_insert (g vt, vt) acc) [] rest)) = mset rest"
proof -
  have "mset (map snd (foldl (\<lambda>acc vt. multimap_insert (g vt, vt) acc) [] rest)) =
        image_mset snd (mset (foldl (\<lambda>acc vt. multimap_insert (g vt, vt) acc) [] rest))"
    by simp
  also have "\<dots> = image_mset snd (mset (map (\<lambda>vt. (g vt, vt)) rest))"
    by (simp add: mset_foldl_insert)
  also have "\<dots> = mset rest"
    by (simp add: image_mset.compositionality comp_def)
  finally show ?thesis .
qed

lemma length_foldl_insert:
  "length (foldl (\<lambda>acc vt. multimap_insert (g vt, vt) acc) sp rest) = length sp + length rest"
  by (induction rest arbitrary: sp) (simp_all add: length_multimap_insert)

lemma stable_foldl_insert:
  "filter (\<lambda>vt. g vt = s) (map snd (foldl (\<lambda>acc vt. multimap_insert (g vt, vt) acc) [] rest)) =
   filter (\<lambda>vt. g vt = s) rest"
proof -
  let ?sp = "foldl (\<lambda>acc vt. multimap_insert (g vt, vt) acc) [] rest"
  have keys: "\<And>e. e \<in> set ?sp \<Longrightarrow> (g (snd e) = s) = (fst e = s)"
    by (auto simp: set_foldl_insert)
  have "filter (\<lambda>vt. g vt = s) (map snd ?sp) = map snd (filter (\<lambda>e. g (snd e) = s) ?sp)"
    by (simp add: filter_map comp_def)
  also have "\<dots> = map snd (filter (\<lambda>e. fst e = s) ?sp)"
    using keys by (simp cong: filter_cong)
  also have "\<dots> = map snd (map (\<lambda>vt. (g vt, vt)) (filter (\<lambda>vt. g vt = s) rest))"
    by (simp add: filter_foldl_insert)
  also have "\<dots> = filter (\<lambda>vt. g vt = s) rest"
    by (simp add: comp_def)
  finally show ?thesis .
qed

lemma sorted_scores_foldl_insert:
  "sorted (map g (map snd (foldl (\<lambda>acc vt. multimap_insert (g vt, vt) acc) [] rest)))"
proof -
  let ?sp = "foldl (\<lambda>acc vt. multimap_insert (g vt, vt) acc) [] rest"
  have "\<And>e. e \<in> set ?sp \<Longrightarrow> g (snd e) = fst e"
    by (auto simp: set_foldl_insert)
  then have "map (\<lambda>e. g (snd e)) ?sp = map fst ?sp"
    by (simp cong: map_cong)
  then have eq: "map g (map snd ?sp) = map fst ?sp"
    by (simp add: comp_def)
  have "sorted (map fst ?sp)"
    by (rule sorted_foldl_insert) simp
  then show ?thesis by (simp only: eq)
qed

subsection \<open>Runs of remove\_outliers\<close>

lemma remove_outliers_Inr:
  assumes "remove_outliers sqd NQ pts k np = Inr (pts', ret)"
  shows "pts \<noteq> [] \<and> 2 \<le> k \<and> 0 \<le> threshold_percent np \<and> threshold_percent np \<le> 100 \<and>
    ((\<exists>calls. scoring_loop sqd (NQ pts (point_map np)) k np (length pts) pts [] 0 [] =
         Inr (None, calls) \<and> pts' = pts \<and> ret = length pts) \<or>
     (\<exists>sp calls fitr. scoring_loop sqd (NQ pts (point_map np)) k np (length pts) pts [] 0 [] =
         Inr (Some sp, calls) \<and>
         double_to_int (of_nat (length sp) * ((100 - threshold_percent np) / 100)) = Inr fitr \<and>
         rewrite_loop sp 0 fitr (threshold_distance np) pts 0 0 = Inr (pts', ret)))"
  using assms unfolding remove_outliers_def CGAL_point_set_processing_precondition_def Let_def
  by (auto split: if_splits sum.splits option.splits prod.splits)



lemma completed_run:
  assumes "scoring_loop sqd nq k np (length pts) pts [] 0 [] = Inr (Some sp, calls)"
    and "rewrite_loop sp 0 fitr td pts 0 0 = Inr (pts', ret)"
  shows "pts' = map snd (foldl (\<lambda>acc vt. multimap_insert (sq_distance_of sqd nq k np vt, vt) acc) [] pts)"
    and "length sp = length pts" and "ret \<le> length pts"
proof -
  from scoring_loop_Some[OF assms(1)]
  have sp: "sp = foldl (\<lambda>acc vt. multimap_insert (sq_distance_of sqd nq k np vt, vt) acc) [] pts" .
  then show len: "length sp = length pts" by (simp add: length_foldl_insert)
  from rewrite_loop_points[OF assms(2)] len sp
  show "pts' = map snd (foldl (\<lambda>acc vt. multimap_insert (sq_distance_of sqd nq k np vt, vt) acc) [] pts)"
    by simp
  from rewrite_loop_cut[OF assms(2)] len show "ret \<le> length pts" by simp
qed

lemma remove_outliers_returns:
  assumes "pts \<noteq> []" "2 \<le> k" "0 \<le> threshold_percent np" "threshold_percent np \<le> 100"
    and "int (length pts) \<le> INT_MAX"
    and "\<forall>vt\<in>set pts. NQ pts (point_map np) (point_map np vt) k (neighbor_radius np) \<noteq> []"
  shows "\<exists>pts' ret. remove_outliers sqd NQ pts k np = Inr (pts', ret)"
proof -
  let ?run = "scoring_loop sqd (NQ pts (point_map np)) k np (length pts) pts [] 0 []"
  from scoring_loop_returns[where nq = "NQ pts (point_map np)", OF assms(6)] obtain r c where run: "?run = Inr (r, c)" by blast
  show ?thesis
  proof (cases r)
    case None
    with run assms(1-4) show ?thesis by (simp add: remove_outliers_def CGAL_point_set_processing_precondition_def Let_def)
  next
    case (Some sp)
    let ?x = "of_nat (length sp) * ((100 - threshold_percent np) / 100) :: rat"
    have len: "length sp = length pts"
      using scoring_loop_Some[OF run[unfolded Some]] by (simp add: length_foldl_insert)
    have x0: "0 \<le> ?x" using assms(4) by simp
    have "?x \<le> of_nat (length sp) * 1"
      using assms(3) by (intro mult_left_mono) simp_all
    then have "\<lfloor>?x\<rfloor> \<le> \<lfloor>of_nat (length sp) :: rat\<rfloor>" by (intro floor_mono) simp
    then have "\<lfloor>?x\<rfloor> \<le> INT_MAX" using assms(5) len by simp
    moreover have "0 \<le> \<lfloor>?x\<rfloor>" using x0 by simp
    ultimately have d: "double_to_int ?x = Inr \<lfloor>?x\<rfloor>"
      using x0 by (simp add: double_to_int_def Let_def INT_MIN_def)
    have "0 + int (length sp) \<le> INT_MAX" using assms(5) len by simp
    from rewrite_loop_returns[OF this] obtain res where
      "rewrite_loop sp 0 \<lfloor>?x\<rfloor> (threshold_distance np) pts 0 0 = Inr res" by blast
    with run Some d assms(1-4) show ?thesis
      by (cases res) (simp add: remove_outliers_def CGAL_point_set_processing_precondition_def Let_def)
  qed
qed

text \<open>
  With \<open>threshold_distance = 0\<close> and a squared distance that is never negative, the position
  returned by a completed run is a function of the number of points and of
  \<open>threshold_percent\<close> alone.
\<close>

lemma rewrite_loop_distance_0:
  "rewrite_loop sp idx fitr 0 pts dst fptr = Inr (pts', ret) \<Longrightarrow> \<forall>e\<in>set sp. 0 \<le> fst e \<Longrightarrow>
   (idx \<le> fitr + 1 \<Longrightarrow> fptr = dst) \<Longrightarrow>
   ret = (if idx \<le> fitr then dst + min (length sp) (nat (fitr - idx + 1)) else fptr)"
proof (induction sp arbitrary: idx pts dst fptr)
  case Nil
  then show ?case by simp
next
  case (Cons src rest)
  have nk: "\<not> fst src < 0 * 0" using Cons.prems(2) by simp
  show ?case
  proof (cases "idx \<le> fitr")
    case True
    with Cons.prems(1) have
      run: "rewrite_loop rest (idx + 1) fitr 0 (pts[dst := snd src]) (dst + 1) (dst + 1) = Inr (pts', ret)"
      by (auto simp: Let_def split: if_splits)
    have "ret = (if idx + 1 \<le> fitr then dst + 1 + min (length rest) (nat (fitr - (idx + 1) + 1))
                 else dst + 1)"
      using Cons.IH[OF run] Cons.prems(2) by simp
    with True show ?thesis by (auto simp: min_def nat_add_distrib)
  next
    case False
    with Cons.prems(1) nk have
      run: "rewrite_loop rest (idx + 1) fitr 0 (pts[dst := snd src]) (dst + 1) fptr = Inr (pts', ret)"
      by (auto simp: Let_def split: if_splits)
    have "ret = (if idx + 1 \<le> fitr then dst + 1 + min (length rest) (nat (fitr - (idx + 1) + 1))
                 else fptr)"
      using Cons.IH[OF run] Cons.prems(2) False by simp
    with False show ?thesis by simp
  qed
qed

lemma compute_avg_nonneg:
  assumes "\<forall>p q. 0 \<le> sqd p q" and "compute_avg_knn_sq_distance_3 sqd query nq k r = Inr s"
  shows "0 \<le> s"
proof -
  have "0 \<le> sum_list (map (\<lambda>neighbor. sqd neighbor query) (nq query k r))"
    using assms(1) by (intro sum_list_nonneg) auto
  with assms(2) show ?thesis
    by (auto simp: compute_avg_knn_sq_distance_3_def Let_def foldl_add_sum_list split: if_splits)
qed

lemma scoring_loop_nonneg:
  "\<forall>p q. 0 \<le> sqd p q \<Longrightarrow> scoring_loop sqd nq k np N rest sp nb calls = Inr (Some sp', calls') \<Longrightarrow>
   \<forall>e\<in>set sp. 0 \<le> fst e \<Longrightarrow> \<forall>e\<in>set sp'. 0 \<le> fst e"
proof (induction rest arbitrary: sp nb calls)
  case Nil
  then show ?case by simp
next
  case (Cons vt rest)
  from Cons.prems(2) obtain s where
    s: "compute_avg_knn_sq_distance_3 sqd (point_map np vt) nq k (neighbor_radius np) = Inr s"
    by (auto split: sum.splits)
  from compute_avg_nonneg[OF Cons.prems(1) s] Cons.prems(3)
  have nn: "\<forall>e\<in>set (multimap_insert (s, vt) sp). 0 \<le> fst e"
    by (simp add: set_multimap_insert)
  from Cons.prems(2) s obtain nb' calls'' where
    "scoring_loop sqd nq k np N rest (multimap_insert (s, vt) sp) nb' calls'' = Inr (Some sp', calls')"
    by (auto simp: Let_def split: option.splits if_splits)
  from Cons.IH[OF Cons.prems(1) this nn] show ?case .
qed

lemma remove_outliers_distance_0:
  assumes "\<forall>p q. 0 \<le> sqd p q" and "threshold_distance np = 0"
    and "remove_outliers sqd NQ pts k np = Inr (pts', ret)"
    and "scoring_loop sqd (NQ pts (point_map np)) k np (length pts) pts [] 0 [] = Inr (Some sp, calls)"
  shows "ret = min (length pts) (nat \<lfloor>of_nat (length pts) * ((100 - threshold_percent np) / 100)\<rfloor> + 1)"
proof -
  let ?x = "of_nat (length sp) * ((100 - threshold_percent np) / 100) :: rat"
  from remove_outliers_Inr[OF assms(3)] assms(4) obtain fitr where
    tp: "threshold_percent np \<le> 100" and d: "double_to_int ?x = Inr fitr"
    and w: "rewrite_loop sp 0 fitr (threshold_distance np) pts 0 0 = Inr (pts', ret)"
    by auto
  have len: "length sp = length pts" by (rule completed_run(2)[OF assms(4) w])
  have x0: "0 \<le> ?x" using tp by simp
  then have f: "fitr = \<lfloor>?x\<rfloor>" using d by (auto simp: double_to_int_def Let_def split: if_splits)
  have f0: "0 \<le> fitr" using x0 f by simp
  have nn: "\<forall>e\<in>set sp. 0 \<le> fst e"
    using scoring_loop_nonneg[OF assms(1,4)] by simp
  from rewrite_loop_distance_0[OF w[unfolded assms(2)] nn] f0
  have "ret = min (length sp) (nat (fitr + 1))" by simp
  with f0 f len show ?thesis by (simp add: nat_add_distrib)
qed

lemma knn_query_nonempty:
  "points \<noteq> [] \<Longrightarrow> 0 < k \<Longrightarrow> knn_query points pm query k 0 \<noteq> []"
proof -
  assume ne: "points \<noteq> []" and k: "0 < k"
  have "sort_key (\<lambda>p. squared_distance_3 p query) (map pm points) \<noteq> []"
  proof
    assume "sort_key (\<lambda>p. squared_distance_3 p query) (map pm points) = []"
    then have "length (sort_key (\<lambda>p. squared_distance_3 p query) (map pm points)) = length ([] :: Point_3 list)"
      by (rule arg_cong)
    with ne show False by simp
  qed
  with k show ?thesis by (simp add: knn_query_def Let_def take_eq_Nil)
qed

subsection \<open>Runs on the concrete inputs\<close>

lemma run_three_points_percent_50:
  "remove_outliers squared_distance_3 knn_query three_points 2
     ((all_default id)\<lparr>threshold_percent := 50\<rparr>) =
     Inr ([(0, 0, 0), (1, 0, 0), (3, 0, 0)], 2)"
  by code_simp


lemma scoring_three_points_percent_50:
  "scoring_loop squared_distance_3 (knn_query three_points id) 2
     ((all_default id)\<lparr>threshold_percent := 50\<rparr>) 3 three_points [] 0 [] =
     Inr (Some [(1 / 2, (0, 0, 0)), (1 / 2, (1, 0, 0)), (2, (3, 0, 0))], [])"
  by code_simp


lemma knn_three_points_origin:
  "knn_query three_points id (0, 0, 0) 5 0 = [(0, 0, 0), (1, 0, 0), (3, 0, 0)]"
  by code_simp

lemma knn_three_points_far_radius:
  "knn_query three_points id (100, 0, 0) 2 (1 / 2) = []"
  by code_simp

section \<open>The claims\<close>

text \<open>
  Claim C1. Ten points, nine of them in a tight cluster and one far away, with \<open>k = 2\<close>,
  \<open>threshold_percent = 10\<close> and \<open>threshold_distance = 0\<close> (the defaults): the claim expects
  the far point to be last after the run and the returned position to be one before the
  end. The run does move the far point, fourth in the input, to the last position, but the
  position it returns is 10, the end of the range of ten points: \<open>first_index_to_remove\<close>
  is 9 and the test \<open>index <= first_index_to_remove\<close> still holds at the last index 9, so
  no point is left to remove.
\<close>

theorem remove_outliers_cluster_and_far:
  "remove_outliers squared_distance_3 knn_query cluster_and_far 2 (all_default id) =
     Inr ([(0, 0, 0), (1/10, 0, 0), (0, 1/10, 0), (1/10, 1/10, 0), (0, 0, 1/10),
           (1/20, 1/20, 1/20), (1/10, 0, 1/10), (0, 1/10, 1/10), (1/10, 1/10, 1/10),
           far_point], 10)"
  by code_simp

text \<open>
  Claim C2. With \<open>threshold_percent = 100\<close> the claim lets the distance threshold alone
  decide: a point is kept exactly when its score is below the squared
  \<open>threshold_distance\<close>. On the three points with \<open>threshold_distance = 0\<close> no score is
  below the square, yet the run returns position 1: the point \<open>(0, 0, 0)\<close> at position 0
  is kept although its score 1/2 is not below 0, because \<open>index <= first_index_to_remove\<close>
  holds for index 0 and \<open>first_index_to_remove = 0\<close>.
\<close>

theorem remove_outliers_percent_100_keeps_lowest:
  "remove_outliers squared_distance_3 knn_query three_points 2
     ((all_default id)\<lparr>threshold_percent := 100, threshold_distance := 0\<rparr>) =
     Inr ([(0, 0, 0), (1, 0, 0), (3, 0, 0)], 1) \<and>
   \<not> sq_distance_of squared_distance_3 (knn_query three_points id) 2
        ((all_default id)\<lparr>threshold_percent := 100, threshold_distance := 0\<rparr>) (0, 0, 0)
      < 0 * 0"
  by code_simp

text \<open>
  Claim C3. Whenever \<open>remove_outliers\<close> returns (which it does only for a non-empty range,
  \<open>k \<ge> 2\<close> and \<open>threshold_percent\<close> in \<open>[0, 100]\<close>), the returned position lies between the
  begin and the end of the range, and the range after the run has the size of the
  range before it and holds the same points with the same multiplicities. This covers
  the cancelled run as well as the completed one.
\<close>

theorem remove_outliers_permutation:
  assumes "remove_outliers sqd NQ pts k np = Inr (pts', ret)"
  shows "ret \<le> length pts' \<and> length pts' = length pts \<and> mset pts' = mset pts"
proof -
  from remove_outliers_Inr[OF assms] consider
    (cancelled) "pts' = pts" "ret = length pts"
  | (completed) sp calls fitr where
      "scoring_loop sqd (NQ pts (point_map np)) k np (length pts) pts [] 0 [] = Inr (Some sp, calls)"
      "rewrite_loop sp 0 fitr (threshold_distance np) pts 0 0 = Inr (pts', ret)"
    by blast
  then show ?thesis
  proof cases
    case cancelled
    then show ?thesis by simp
  next
    case completed
    from completed_run[OF completed]
    have p: "pts' = map snd (foldl (\<lambda>acc vt. multimap_insert
               (sq_distance_of sqd (NQ pts (point_map np)) k np vt, vt) acc) [] pts)"
      and c: "ret \<le> length pts" by simp_all
    have m: "mset pts' = mset pts" unfolding p by (rule map_snd_foldl_insert)
    then have "length pts' = length pts" by (rule mset_eq_length)
    with m c show ?thesis by simp
  qed
qed

theorem remove_outliers_permutation_witness:
  "remove_outliers squared_distance_3 knn_query three_points 2
     ((all_default id)\<lparr>threshold_percent := 50\<rparr>) =
     Inr ([(0, 0, 0), (1, 0, 0), (3, 0, 0)], 2) \<and>
   (2::nat) \<le> length [(0, 0, 0), (1, 0, 0), (3, 0, 0) :: Point_3] \<and>
   length [(0, 0, 0), (1, 0, 0), (3, 0, 0) :: Point_3] = length three_points \<and>
   mset [(0, 0, 0), (1, 0, 0), (3, 0, 0)] = mset three_points"
  using remove_outliers_permutation[OF run_three_points_percent_50] run_three_points_percent_50
  by simp

text \<open>
  Claim C4. In a run whose scoring pass is reached (non-empty range, \<open>k \<ge> 2\<close>,
  \<open>threshold_percent\<close> in \<open>[0, 100]\<close>), if the callback returns false for the progress value
  of some input point \<open>j\<close>, and the points up to \<open>j\<close> have a neighbour each so that they can be
  scored, then the run returns the range exactly as it was, together with the end of the
  range.
\<close>

theorem remove_outliers_cancelled:
  assumes "pts \<noteq> []" "2 \<le> k" "0 \<le> threshold_percent np" "threshold_percent np \<le> 100"
    and "callback np = Some f" and "j < length pts"
    and "\<not> f (of_nat (j + 1) / of_nat (length pts))"
    and "\<forall>i\<le>j. NQ pts (point_map np) (point_map np (pts ! i)) k (neighbor_radius np) \<noteq> []"
  shows "remove_outliers sqd NQ pts k np = Inr (pts, length pts)"
proof -
  have "\<not> f (of_nat (0 + j + 1) / of_nat (length pts))" using assms(7) by simp
  from scoring_loop_cancel[where nq = "NQ pts (point_map np)", OF assms(5,6) this assms(8)]
  obtain c where "scoring_loop sqd (NQ pts (point_map np)) k np (length pts) pts [] 0 [] = Inr (None, c)"
    by blast
  with assms(1-4) show ?thesis by (simp add: remove_outliers_def CGAL_point_set_processing_precondition_def Let_def)
qed

theorem remove_outliers_cancelled_witness:
  "remove_outliers squared_distance_3 knn_query three_points 2
     ((all_default id)\<lparr>callback := Some (\<lambda>x. x < 1 / 2)\<rparr>) = Inr (three_points, 3)"
proof -
  let ?np = "(all_default id :: (Point_3, Point_3) named_parameters)\<lparr>callback := Some (\<lambda>x. x < 1 / 2)\<rparr>"
  have ne: "three_points \<noteq> []" by (simp add: three_points_def)
  have k: "(2::nat) \<le> 2" by simp
  have p0: "0 \<le> threshold_percent ?np" and p100: "threshold_percent ?np \<le> 100"
    by (simp_all add: all_default_def)
  have cb: "callback ?np = Some (\<lambda>x. x < 1 / 2)" by simp
  have j: "(1::nat) < length three_points" by (simp add: three_points_def)
  have stop: "\<not> (\<lambda>x::rat. x < 1 / 2) (of_nat (1 + 1) / of_nat (length three_points))"
    by (simp add: three_points_def)
  have nbrs: "\<forall>i\<le>1. knn_query three_points (point_map ?np) (point_map ?np (three_points ! i)) 2
                 (neighbor_radius ?np) \<noteq> []"
    using knn_query_nonempty[OF ne, of 2] by (simp add: all_default_def)
  from remove_outliers_cancelled[where sqd = squared_distance_3 and NQ = knn_query
      and pts = three_points and k = 2 and np = ?np and f = "\<lambda>x. x < 1 / 2" and j = 1,
      OF ne k p0 p100 cb j stop nbrs]
  show ?thesis by (simp add: three_points_def)
qed



text \<open>
  Claim C6. When the neighbour query returns at least one point, the estimator returns the
  sum of the squared distances between the query and the returned neighbours, divided by
  the number of neighbours returned; \<open>k\<close> enters only as an argument of the query. In the
  instance below five neighbours are asked for, three are returned, and the divisor is 3.
\<close>

theorem compute_avg_knn_sq_distance_3_mean:
  assumes "neighbor_query query k r \<noteq> []"
  shows "compute_avg_knn_sq_distance_3 sqd query neighbor_query k r =
     Inr (sum_list (map (\<lambda>neighbor. sqd neighbor query) (neighbor_query query k r)) /
          of_nat (length (neighbor_query query k r)))"
  using assms by (simp add: compute_avg_knn_sq_distance_3_def Let_def foldl_add_sum_list)

theorem compute_avg_knn_sq_distance_3_mean_witness:
  "knn_query three_points id (0, 0, 0) 5 0 = [(0, 0, 0), (1, 0, 0), (3, 0, 0)] \<and>
   compute_avg_knn_sq_distance_3 squared_distance_3 (0, 0, 0) (knn_query three_points id) 5 0 =
     Inr ((0 + 1 + 9) / 3)"
proof -
  have ne: "knn_query three_points id (0, 0, 0) 5 0 \<noteq> []"
    by (simp add: knn_three_points_origin)
  from compute_avg_knn_sq_distance_3_mean[where sqd = squared_distance_3
      and neighbor_query = "knn_query three_points id" and query = "(0, 0, 0)" and k = 5 and r = 0,
      OF ne] knn_three_points_origin
  show ?thesis by simp
qed

text \<open>
  Claim C7. The estimator divides by the number of neighbours returned without testing it:
  the run is a division by zero exactly when the neighbour query returns no point. So the
  division by zero happens whenever no neighbour is returned, and cannot happen for a
  query that returns at least one. In the instance below a query with radius 1/2 around a
  point far from the indexed points returns nothing.
\<close>

theorem compute_avg_knn_sq_distance_3_division_by_zero:
  "compute_avg_knn_sq_distance_3 sqd query neighbor_query k r = Inl Division_by_zero \<longleftrightarrow>
   neighbor_query query k r = []"
  by (simp add: compute_avg_knn_sq_distance_3_def Let_def)

theorem compute_avg_knn_sq_distance_3_division_by_zero_witness:
  "compute_avg_knn_sq_distance_3 squared_distance_3 (100, 0, 0) (knn_query three_points id) 2 (1 / 2) =
     Inl Division_by_zero \<and>
   compute_avg_knn_sq_distance_3 squared_distance_3 (0, 0, 0) (knn_query three_points id) 5 0 \<noteq>
     Inl Division_by_zero"
  using compute_avg_knn_sq_distance_3_division_by_zero[of squared_distance_3 "(100, 0, 0)"
          "knn_query three_points id" 2 "1 / 2"]
        compute_avg_knn_sq_distance_3_division_by_zero[of squared_distance_3 "(0, 0, 0)"
          "knn_query three_points id" 5 0]
        knn_three_points_far_radius knn_three_points_origin
  by simp

text \<open>
  Claim C8. When the scoring pass has run to its end and the run returns, the range is in
  ascending order of score, and for every score value the points with that score appear in
  the range in the same relative order as in the input.
\<close>

theorem remove_outliers_stable:
  assumes "remove_outliers sqd NQ pts k np = Inr (pts', ret)"
    and "scoring_loop sqd (NQ pts (point_map np)) k np (length pts) pts [] 0 [] = Inr (Some sp, calls)"
  shows "sorted (map (sq_distance_of sqd (NQ pts (point_map np)) k np) pts') \<and>
         (\<forall>s. filter (\<lambda>vt. sq_distance_of sqd (NQ pts (point_map np)) k np vt = s) pts' =
              filter (\<lambda>vt. sq_distance_of sqd (NQ pts (point_map np)) k np vt = s) pts)"
proof -
  from remove_outliers_Inr[OF assms(1)] assms(2) obtain fitr where
    "rewrite_loop sp 0 fitr (threshold_distance np) pts 0 0 = Inr (pts', ret)"
    by auto
  from completed_run(1)[OF assms(2) this]
  have p: "pts' = map snd (foldl (\<lambda>acc vt. multimap_insert
               (sq_distance_of sqd (NQ pts (point_map np)) k np vt, vt) acc) [] pts)" .
  show ?thesis unfolding p
    by (intro conjI allI sorted_scores_foldl_insert stable_foldl_insert)
qed

theorem remove_outliers_stable_witness:
  "sorted (map (sq_distance_of squared_distance_3 (knn_query three_points id) 2
             ((all_default id)\<lparr>threshold_percent := 50\<rparr>)) [(0, 0, 0), (1, 0, 0), (3, 0, 0)]) \<and>
   filter (\<lambda>vt. sq_distance_of squared_distance_3 (knn_query three_points id) 2
             ((all_default id)\<lparr>threshold_percent := 50\<rparr>) vt = 1 / 2) [(0, 0, 0), (1, 0, 0), (3, 0, 0)] =
   filter (\<lambda>vt. sq_distance_of squared_distance_3 (knn_query three_points id) 2
             ((all_default id)\<lparr>threshold_percent := 50\<rparr>) vt = 1 / 2) three_points"
proof -
  let ?np = "(all_default id :: (Point_3, Point_3) named_parameters)\<lparr>threshold_percent := 50\<rparr>"
  have len: "length three_points = 3" by (simp add: three_points_def)
  have pm: "point_map ?np = id" by (simp add: all_default_def)
  have sc: "scoring_loop squared_distance_3 (knn_query three_points (point_map ?np)) 2 ?np
              (length three_points) three_points [] 0 [] =
            Inr (Some [(1 / 2, (0, 0, 0)), (1 / 2, (1, 0, 0)), (2, (3, 0, 0))], [])"
    using scoring_three_points_percent_50 by (simp only: len pm)
  from remove_outliers_stable[OF run_three_points_percent_50 sc]
  show ?thesis by (simp only: pm)
qed





end
